theory Spec2Isabelle
  imports Complex_Main
begin

section \<open>The ingestion worker of AquaWatch (backend/arduino\_worker.py)\<close>

text \<open>
  A shallow embedding of the three functions of \<^verbatim>\<open>arduino_worker.py\<close>:
  \<^verbatim>\<open>parse_sensor_line\<close>, \<^verbatim>\<open>send_sensor_data\<close> and the polling loop of \<^verbatim>\<open>main\<close>.

  Conventions of the embedding.
  \<^item> A Python \<^verbatim>\<open>str\<close> is a \<^typ>\<open>string\<close>; a \<^typ>\<open>char\<close> stands for a code point below 256.
    The built-in string operations (\<^verbatim>\<open>strip\<close>, \<^verbatim>\<open>split\<close>, \<^verbatim>\<open>lower\<close>, \<^verbatim>\<open>in\<close>, \<^verbatim>\<open>replace\<close>)
    are written out for these code points.
  \<^item> A Python \<^verbatim>\<open>float\<close> is a value of type \<open>fl\<close>: a finite value, one of the two
    infinities, or NaN. The comparisons follow IEEE 754 (every comparison with NaN is
    false). The two zeros, which compare equal, are one value. The rounding of a decimal
    numeral to binary64 is a parameter \<open>rnd\<close> of the conversion \<open>py_float\<close>; every
    theorem holds for every rounding function.
  \<^item> An exception is a value \<open>Inl e\<close> of the sum type \<open>exn + 'a\<close>; each
    \<^verbatim>\<open>try ... except\<close> of the source is a case distinction on such a value.
  \<^item> Calls of the logger, of \<^verbatim>\<open>time.sleep\<close> and of \<^verbatim>\<open>requests.post\<close> are recorded, in
    order, in a list of effects returned together with the result.
\<close>

subsection \<open>Exceptions, floats, effects\<close>

datatype exn = ValueError | IndexError | RequestException | SerialException

datatype fl = Fin rat | PInf | NInf | NaN

text \<open>\<open>a <= b\<close> and \<open>a < b\<close> on floats.\<close>

fun fle :: "fl \<Rightarrow> fl \<Rightarrow> bool" where
  "fle NaN b = False"
| "fle a NaN = False"
| "fle NInf b = True"
| "fle a PInf = True"
| "fle (Fin x) (Fin y) = (x \<le> y)"
| "fle a b = False"

fun flt :: "fl \<Rightarrow> fl \<Rightarrow> bool" where
  "flt NaN b = False"
| "flt a NaN = False"
| "flt (Fin x) (Fin y) = (x < y)"
| "flt NInf NInf = False"
| "flt NInf b = True"
| "flt PInf b = False"
| "flt a PInf = True"
| "flt a b = False"

text \<open>The pydantic model \<^verbatim>\<open>SensorReadingCreate\<close> of schemas.py: three floats, no constraint.\<close>

record SensorReadingCreate =
  ph :: fl
  tds :: fl
  turbidity :: fl

datatype level = DEBUG | INFO | WARNING | ERROR

datatype message =
    Incomplete_sensor_data string
  | Invalid_pH_value fl
  | TDS_out_of_range fl
  | Turbidity_out_of_range fl
  | Failed_to_parse string exn
  | Successfully_sent SensorReadingCreate
  | API_returned_status int
  | Attempt_failed int int
  | Failed_to_send_after int
  | Received_line string
  | Could_not_parse string
  | Too_many_errors int
  | Error_in_main_loop

datatype effect =
    Log level message
  | Sleep rat
  | Post SensorReadingCreate

subsection \<open>String built-ins\<close>

text \<open>\<^verbatim>\<open>str.isspace\<close> on one code point below 256: TAB, LF, VT, FF, CR, FS, GS, RS, US,
  SPACE, NEL and NBSP.\<close>

definition is_space :: "char \<Rightarrow> bool" where
  "is_space c = (of_char c \<in> {9, 10, 11, 12, 13, 28, 29, 30, 31, 32, 133, 160 :: nat})"

text \<open>\<^verbatim>\<open>s.strip()\<close>\<close>

definition strip :: "string \<Rightarrow> string" where
  "strip s = rev (dropWhile is_space (rev (dropWhile is_space s)))"

text \<open>\<^verbatim>\<open>s.split()\<close>: the maximal runs of non-whitespace characters, in order. The first
  argument is the token being read.\<close>

fun split_from :: "string \<Rightarrow> string \<Rightarrow> string list" where
  "split_from cur [] = (if cur = [] then [] else [cur])"
| "split_from cur (c # cs) =
     (if is_space c then (if cur = [] then split_from [] cs else cur # split_from [] cs)
      else split_from (cur @ [c]) cs)"

definition py_split :: "string \<Rightarrow> string list" where
  "py_split s = split_from [] s"

text \<open>\<^verbatim>\<open>s.lower()\<close>: A-Z and the upper-case letters of Latin-1 move up by 32.\<close>

definition lower_char :: "char \<Rightarrow> char" where
  "lower_char c =
     (let n = (of_char c :: nat)
      in if (65 \<le> n \<and> n \<le> 90) \<or> (192 \<le> n \<and> n \<le> 222 \<and> n \<noteq> 215) then char_of (n + 32) else c)"

definition lower :: "string \<Rightarrow> string" where
  "lower s = map lower_char s"

text \<open>\<^verbatim>\<open>sub in s\<close>\<close>

fun starts_with :: "string \<Rightarrow> string \<Rightarrow> bool" where
  "starts_with [] s = True"
| "starts_with (a # sub) [] = False"
| "starts_with (a # sub) (c # s) = (a = c \<and> starts_with sub s)"

fun contains :: "string \<Rightarrow> string \<Rightarrow> bool" where
  "contains sub [] = (sub = [])"
| "contains sub (c # s) = (starts_with sub (c # s) \<or> contains sub s)"

text \<open>\<^verbatim>\<open>s.replace(':', '')\<close>\<close>

definition remove_colons :: "string \<Rightarrow> string" where
  "remove_colons s = filter (\<lambda>c. c \<noteq> CHR '':'') s"

subsection \<open>The built-in \<^verbatim>\<open>float\<close> on a string\<close>

definition is_digit :: "char \<Rightarrow> bool" where
  "is_digit c = (c \<in> set ''0123456789'')"

definition digit_val :: "char \<Rightarrow> int" where
  "digit_val c = of_char c - 48"

text \<open>The number written by a string of digits.\<close>

definition dec :: "string \<Rightarrow> int" where
  "dec s = foldl (\<lambda>n c. 10 * n + digit_val c) 0 s"

text \<open>An underscore is accepted only directly between two digits. The first argument is
  the previous character.\<close>

fun underscores_ok :: "char \<Rightarrow> string \<Rightarrow> bool" where
  "underscores_ok prev [] = (prev \<noteq> CHR ''_'')"
| "underscores_ok prev (c # cs) =
     ((if c = CHR ''_'' then is_digit prev
       else if prev = CHR ''_'' then is_digit c
       else True)
      \<and> underscores_ok c cs)"

text \<open>An optional sign in front of a string.\<close>

definition take_sign :: "string \<Rightarrow> bool \<times> string" where
  "take_sign s =
     (case s of
        [] \<Rightarrow> (False, [])
      | c # r \<Rightarrow> if c = CHR ''-'' then (True, r) else if c = CHR ''+'' then (False, r) else (False, s))"

text \<open>An unsigned number: digits, an optional point, digits (one digit at least), then an
  optional exponent \<open>e\<close> or \<open>E\<close>, an optional sign and one digit at least. The whole
  string has to be used up. The value is exact.\<close>

definition float_number :: "string \<Rightarrow> rat option" where
  "float_number s =
     (let ip = takeWhile is_digit s;
          r1 = dropWhile is_digit s;
          pt = (r1 \<noteq> [] \<and> hd r1 = CHR ''.'');
          fp = (if pt then takeWhile is_digit (tl r1) else []);
          r2 = (if pt then dropWhile is_digit (tl r1) else r1);
          m = of_int (dec ip) + of_int (dec fp) / 10 ^ length fp
      in if ip = [] \<and> fp = [] then None
         else if r2 = [] then Some m
         else if hd r2 = CHR ''e'' \<or> hd r2 = CHR ''E'' then
           (case take_sign (tl r2) of (neg, d) \<Rightarrow>
              if d \<noteq> [] \<and> list_all is_digit d
              then Some (if neg then m / 10 ^ nat (dec d) else m * 10 ^ nat (dec d))
              else None)
         else None)"

text \<open>\<^verbatim>\<open>float(s)\<close>: surrounding whitespace is dropped, the underscores are checked and
  removed; then a sign and a number, \<open>inf\<close>, \<open>infinity\<close> or \<open>nan\<close> (in any case).
  Anything else raises ValueError.\<close>

definition py_float :: "(rat \<Rightarrow> fl) \<Rightarrow> string \<Rightarrow> exn + fl" where
  "py_float rnd s =
     (let t = strip s
      in if \<not> underscores_ok (CHR 0x00) t then Inl ValueError
         else case take_sign (filter (\<lambda>c. c \<noteq> CHR ''_'') t) of (neg, a) \<Rightarrow>
           (case float_number a of
              Some q \<Rightarrow> Inr (rnd (if neg then - q else q))
            | None \<Rightarrow>
                if lower a = ''inf'' \<or> lower a = ''infinity'' then Inr (if neg then NInf else PInf)
                else if lower a = ''nan'' then Inr NaN
                else Inl ValueError))"

subsection \<open>\<^verbatim>\<open>parse_sensor_line\<close>\<close>

text \<open>Sequencing of computations that may raise.\<close>

definition and_then :: "exn + 'a \<Rightarrow> ('a \<Rightarrow> exn + 'b) \<Rightarrow> exn + 'b" where
  "and_then m f = (case m of Inl e \<Rightarrow> Inl e | Inr x \<Rightarrow> f x)"

text \<open>\<^verbatim>\<open>parts[j]\<close> for a non-negative index.\<close>

definition index :: "'a list \<Rightarrow> nat \<Rightarrow> exn + 'a" where
  "index xs j = (if j < length xs then Inr (xs ! j) else Inl IndexError)"

text \<open>
  The statement that occurs six times in the source, with \<open>j\<close> the index of the token
  and \<open>cur\<close> the value of the variable before it:
  \<^verbatim>\<open>
  try:
      value = float(parts[j].replace(':', ''))
  except (ValueError, IndexError):
      pass
  \<close>
\<close>

definition try_float :: "(rat \<Rightarrow> fl) \<Rightarrow> string list \<Rightarrow> nat \<Rightarrow> fl option \<Rightarrow> exn + fl option" where
  "try_float rnd parts j cur =
     (case and_then (index parts j) (\<lambda>t. py_float rnd (remove_colons t)) of
        Inr v \<Rightarrow> Inr (Some v)
      | Inl e \<Rightarrow> if e = ValueError \<or> e = IndexError then Inr cur else Inl e)"

text \<open>
  One keyword loop (lines 44-50, 53-59 and 62-69), over the pairs of \<^verbatim>\<open>enumerate(parts)\<close>
  that are still to be visited; \<open>kw\<close> is the test made on the lower-cased token.
\<close>

fun scan_loop ::
  "(string \<Rightarrow> bool) \<Rightarrow> (rat \<Rightarrow> fl) \<Rightarrow> string list \<Rightarrow> (nat \<times> string) list \<Rightarrow> fl option
     \<Rightarrow> exn + fl option" where
  "scan_loop kw rnd parts [] cur = Inr cur"
| "scan_loop kw rnd parts ((i, part) # rest) cur =
     (if kw (lower part) \<and> i + 1 < length parts
      then and_then (try_float rnd parts (i + 1) cur) (scan_loop kw rnd parts rest)
      else scan_loop kw rnd parts rest cur)"

definition keyword_scan :: "(string \<Rightarrow> bool) \<Rightarrow> (rat \<Rightarrow> fl) \<Rightarrow> string list \<Rightarrow> exn + fl option" where
  "keyword_scan kw rnd parts = scan_loop kw rnd parts (enumerate 0 parts) None"

definition ph_keyword :: "string \<Rightarrow> bool" where
  "ph_keyword part_lower = contains ''ph'' part_lower"

definition tds_keyword :: "string \<Rightarrow> bool" where
  "tds_keyword part_lower = contains ''tds'' part_lower"

definition turbidity_keyword :: "string \<Rightarrow> bool" where
  "turbidity_keyword part_lower =
     (contains ''turbidity'' part_lower \<or> contains ''turb'' part_lower)"

text \<open>One positional fallback (lines 72-76, 78-82 and 84-88).\<close>

definition fallback :: "(rat \<Rightarrow> fl) \<Rightarrow> string list \<Rightarrow> nat \<Rightarrow> fl option \<Rightarrow> exn + fl option" where
  "fallback rnd parts j cur =
     (if cur = None \<and> length parts > j then try_float rnd parts j cur else Inr cur)"

text \<open>Lines 39-88: the three keyword loops, then the three fallbacks, in the order of the
  source. The result is the triple \<^verbatim>\<open>(ph_value, tds_value, turbidity_value)\<close>.\<close>

definition extract_fields ::
  "(rat \<Rightarrow> fl) \<Rightarrow> string list \<Rightarrow> exn + (fl option \<times> fl option \<times> fl option)" where
  "extract_fields rnd parts =
     and_then (keyword_scan ph_keyword rnd parts) (\<lambda>ph1.
     and_then (keyword_scan tds_keyword rnd parts) (\<lambda>tds1.
     and_then (keyword_scan turbidity_keyword rnd parts) (\<lambda>turbidity1.
     and_then (fallback rnd parts 1 ph1) (\<lambda>ph_value.
     and_then (fallback rnd parts 4 tds1) (\<lambda>tds_value.
     and_then (fallback rnd parts 6 turbidity1) (\<lambda>turbidity_value.
     Inr (ph_value, tds_value, turbidity_value)))))))"

text \<open>Lines 90-107: the checks on the three values.\<close>

definition validate ::
  "string \<Rightarrow> fl option \<times> fl option \<times> fl option \<Rightarrow> SensorReadingCreate option \<times> effect list" where
  "validate line f =
     (case f of
        (Some ph_value, Some tds_value, Some turbidity_value) \<Rightarrow>
          if \<not> (fle (Fin 0) ph_value \<and> fle ph_value (Fin 14))
          then (None, [Log WARNING (Invalid_pH_value ph_value)])
          else (Some \<lparr>ph = ph_value, tds = tds_value, turbidity = turbidity_value\<rparr>,
                (if flt tds_value (Fin 0) \<or> flt (Fin 10000) tds_value
                 then [Log WARNING (TDS_out_of_range tds_value)] else []) @
                (if flt turbidity_value (Fin 0) \<or> flt (Fin 100) turbidity_value
                 then [Log WARNING (Turbidity_out_of_range turbidity_value)] else []))
      | _ \<Rightarrow> (None, [Log WARNING (Incomplete_sensor_data line)]))"

text \<open>The body of the outer \<^verbatim>\<open>try\<close> (lines 35-107).\<close>

definition try_body ::
  "(rat \<Rightarrow> fl) \<Rightarrow> string \<Rightarrow> (exn + SensorReadingCreate option) \<times> effect list" where
  "try_body rnd line =
     (case extract_fields rnd (py_split line) of
        Inl e \<Rightarrow> (Inl e, [])
      | Inr f \<Rightarrow> (case validate line f of (r, es) \<Rightarrow> (Inr r, es)))"

text \<open>Every exception of the model is an instance of \<^verbatim>\<open>Exception\<close>.\<close>

definition is_Exception :: "exn \<Rightarrow> bool" where
  "is_Exception e = True"

text \<open>The function: the guard of line 31, the body, and the handler of lines 109-111.
  The result \<open>Inr None\<close> is the rejection.\<close>

definition parse_sensor_line ::
  "(rat \<Rightarrow> fl) \<Rightarrow> string \<Rightarrow> (exn + SensorReadingCreate option) \<times> effect list" where
  "parse_sensor_line rnd line =
     (if line = [] \<or> length (strip line) = 0 then (Inr None, [])
      else case try_body rnd line of
             (Inr r, es) \<Rightarrow> (Inr r, es)
           | (Inl e, es) \<Rightarrow>
               if e = IndexError \<or> e = ValueError \<or> is_Exception e
               then (Inr None, es @ [Log DEBUG (Failed_to_parse line e)])
               else (Inl e, es))"

subsection \<open>\<^verbatim>\<open>send_sensor_data\<close>\<close>

definition MAX_RETRIES :: int where
  "MAX_RETRIES = 3"

definition RETRY_DELAY :: rat where
  "RETRY_DELAY = 2"

text \<open>
  The collector is a function \<open>post\<close> from the number of the attempt to what
  \<^verbatim>\<open>requests.post\<close> does at that attempt: it returns a response, of which the status code
  is kept, or it raises. The loop of lines 116-131 runs over the attempt numbers that are
  left; the empty list is the end of the loop (lines 133-134).
\<close>

fun send_loop ::
  "(nat \<Rightarrow> exn + int) \<Rightarrow> SensorReadingCreate \<Rightarrow> int \<Rightarrow> nat list \<Rightarrow> (exn + bool) \<times> effect list" where
  "send_loop post data retries [] = (Inr False, [Log ERROR (Failed_to_send_after retries)])"
| "send_loop post data retries (attempt # rest) =
     (case post attempt of
        Inr status_code \<Rightarrow>
          if status_code = 200
          then (Inr True, [Post data, Log DEBUG (Successfully_sent data)])
          else (case send_loop post data retries rest of (r, es) \<Rightarrow>
                  (r, [Post data, Log WARNING (API_returned_status status_code)] @ es))
      | Inl e \<Rightarrow>
          if e = RequestException
          then (case send_loop post data retries rest of (r, es) \<Rightarrow>
                  (r, [Post data, Log WARNING (Attempt_failed (int attempt + 1) retries)]
                      @ (if int attempt < retries - 1 then [Sleep RETRY_DELAY] else [])
                      @ es))
          else (Inl e, [Post data]))"

text \<open>\<^verbatim>\<open>range(retries)\<close> is empty for \<open>retries \<le> 0\<close>.\<close>

definition send_sensor_data ::
  "(nat \<Rightarrow> exn + int) \<Rightarrow> SensorReadingCreate \<Rightarrow> int \<Rightarrow> (exn + bool) \<times> effect list" where
  "send_sensor_data post data retries = send_loop post data retries [0..<nat retries]"

subsection \<open>The polling loop of \<^verbatim>\<open>main\<close> (lines 163-196)\<close>

definition max_consecutive_errors :: int where
  "max_consecutive_errors = 10"

text \<open>
  What one iteration finds on the serial port: reading the port raises
  (\<^verbatim>\<open>in_waiting\<close> or \<^verbatim>\<open>readline\<close>), nothing is waiting, or a line has been read and decoded.
  With a line comes the collector that a delivery of this iteration would meet.
\<close>

datatype poll =
    Poll_raises exn
  | No_input
  | Input string "nat \<Rightarrow> exn + int"

datatype control = Continue | Break

text \<open>Lines 185-191: the pause and the test of the counter, which end the \<^verbatim>\<open>try\<close> block.\<close>

definition check_errors :: "int \<Rightarrow> effect list \<Rightarrow> (exn + int \<times> control) \<times> effect list" where
  "check_errors consecutive_errors es =
     (if consecutive_errors \<ge> max_consecutive_errors
      then (Inr (consecutive_errors, Break),
            es @ [Sleep (1 / 10), Log ERROR (Too_many_errors consecutive_errors)])
      else (Inr (consecutive_errors, Continue), es @ [Sleep (1 / 10)]))"

text \<open>Lines 169-191: the \<^verbatim>\<open>try\<close> block of one iteration. The result is the counter and
  whether the loop goes on, or the exception raised.\<close>

definition loop_try :: "(rat \<Rightarrow> fl) \<Rightarrow> int \<Rightarrow> poll \<Rightarrow> (exn + int \<times> control) \<times> effect list" where
  "loop_try rnd consecutive_errors p =
     (case p of
        Poll_raises e \<Rightarrow> (Inl e, [])
      | No_input \<Rightarrow> check_errors consecutive_errors []
      | Input raw post \<Rightarrow>
          (let line = strip raw
           in if line = [] then (Inr (consecutive_errors, Continue), [])
              else case parse_sensor_line rnd line of
                (Inl e, es) \<Rightarrow> (Inl e, Log DEBUG (Received_line line) # es)
              | (Inr None, es) \<Rightarrow>
                  check_errors consecutive_errors
                    (Log DEBUG (Received_line line) # es @ [Log DEBUG (Could_not_parse line)])
              | (Inr (Some data), es) \<Rightarrow>
                  (case send_sensor_data post data MAX_RETRIES of
                     (Inl e, es') \<Rightarrow> (Inl e, Log DEBUG (Received_line line) # es @ es')
                   | (Inr True, es') \<Rightarrow>
                       check_errors 0 (Log DEBUG (Received_line line) # es @ es')
                   | (Inr False, es') \<Rightarrow>
                       check_errors (consecutive_errors + 1)
                         (Log DEBUG (Received_line line) # es @ es'))))"

text \<open>One iteration with the handler of lines 193-196. No exception is raised after the
  counter has been assigned, so the handler adds one to the counter the iteration
  started with.\<close>

definition iteration :: "(rat \<Rightarrow> fl) \<Rightarrow> int \<Rightarrow> poll \<Rightarrow> (int \<times> control) \<times> effect list" where
  "iteration rnd consecutive_errors p =
     (case loop_try rnd consecutive_errors p of
        (Inr r, es) \<Rightarrow> (r, es)
      | (Inl e, es) \<Rightarrow>
          ((consecutive_errors + 1, Continue), es @ [Log ERROR Error_in_main_loop, Sleep 1]))"

text \<open>The loop over the polls of a finite stretch of time. \<open>Stopped\<close>: the loop has
  been left by \<^verbatim>\<open>break\<close>; \<open>Running\<close>: it is still going after the last poll. Both carry the
  counter.\<close>

datatype run = Running int | Stopped int

fun main_loop :: "(rat \<Rightarrow> fl) \<Rightarrow> int \<Rightarrow> poll list \<Rightarrow> run" where
  "main_loop rnd consecutive_errors [] = Running consecutive_errors"
| "main_loop rnd consecutive_errors (p # ps) =
     (case fst (iteration rnd consecutive_errors p) of
        (c, Break) \<Rightarrow> Stopped c
      | (c, Continue) \<Rightarrow> main_loop rnd c ps)"

subsection \<open>Notions used in the statements\<close>

text \<open>An attempt fails when the collector answers with another status than 200 or when
  \<^verbatim>\<open>requests.post\<close> raises a \<^verbatim>\<open>RequestException\<close> (a network-level fault).\<close>

definition failed_attempt :: "exn + int \<Rightarrow> bool" where
  "failed_attempt r = (case r of Inr status_code \<Rightarrow> status_code \<noteq> 200 | Inl e \<Rightarrow> e = RequestException)"

text \<open>The number of requests made, and the pauses taken, in a list of effects.\<close>

fun is_Post :: "effect \<Rightarrow> bool" where
  "is_Post (Post d) = True"
| "is_Post e = False"

fun is_Sleep :: "effect \<Rightarrow> bool" where
  "is_Sleep (Sleep t) = True"
| "is_Sleep e = False"

definition attempts_made :: "effect list \<Rightarrow> nat" where
  "attempts_made es = length (filter is_Post es)"

text \<open>The counter after one iteration.\<close>

definition counter_after :: "(rat \<Rightarrow> fl) \<Rightarrow> int \<Rightarrow> poll \<Rightarrow> int" where
  "counter_after rnd consecutive_errors p = fst (fst (iteration rnd consecutive_errors p))"

text \<open>What \<^verbatim>\<open>requests.post\<close> does at an attempt is one of the two failure modes or a
  response: it raises nothing but a \<^verbatim>\<open>RequestException\<close>.\<close>

definition response_or_fault :: "exn + int \<Rightarrow> bool" where
  "response_or_fault r = (case r of Inr status_code \<Rightarrow> True | Inl e \<Rightarrow> e = RequestException)"

text \<open>The value of the token at index \<open>j\<close>: the token with its colons removed, read as a
  float; nothing when there is no such token or it is not a number.\<close>

definition token_value :: "(rat \<Rightarrow> fl) \<Rightarrow> string list \<Rightarrow> nat \<Rightarrow> fl option" where
  "token_value rnd parts j =
     (if j < length parts
      then (case py_float rnd (remove_colons (parts ! j)) of Inr v \<Rightarrow> Some v | Inl e \<Rightarrow> None)
      else None)"

text \<open>The first of two optional values that is present.\<close>

definition or_else :: "'a option \<Rightarrow> 'a option \<Rightarrow> 'a option" where
  "or_else a b = (case a of Some v \<Rightarrow> Some v | None \<Rightarrow> b)"

text \<open>The value the keyword scan takes at a pair of \<^verbatim>\<open>enumerate(parts)\<close>: the value of the
  next token, when the lower-cased token passes the keyword test and a next token exists.
  Then the values taken over the whole line, in order, and the last of them.\<close>

definition hit :: "(string \<Rightarrow> bool) \<Rightarrow> (rat \<Rightarrow> fl) \<Rightarrow> string list \<Rightarrow> nat \<times> string \<Rightarrow> fl option" where
  "hit kw rnd parts ip =
     (case ip of (i, part) \<Rightarrow>
        if kw (lower part) \<and> i + 1 < length parts then token_value rnd parts (i + 1) else None)"

definition hits :: "(string \<Rightarrow> bool) \<Rightarrow> (rat \<Rightarrow> fl) \<Rightarrow> string list \<Rightarrow> fl list" where
  "hits kw rnd parts = List.map_filter (hit kw rnd parts) (enumerate 0 parts)"

definition last_hit :: "(string \<Rightarrow> bool) \<Rightarrow> (rat \<Rightarrow> fl) \<Rightarrow> string list \<Rightarrow> fl option" where
  "last_hit kw rnd parts =
     (if hits kw rnd parts = [] then None else Some (last (hits kw rnd parts)))"

text \<open>The indices of the tokens that pass a keyword test, in order; and the value of the
  token that follows the last of them.\<close>

definition matches :: "(string \<Rightarrow> bool) \<Rightarrow> string list \<Rightarrow> nat list" where
  "matches kw parts = filter (\<lambda>i. kw (lower (parts ! i))) [0..<length parts]"

definition value_at_last_match :: "(string \<Rightarrow> bool) \<Rightarrow> (rat \<Rightarrow> fl) \<Rightarrow> string list \<Rightarrow> fl option" where
  "value_at_last_match kw rnd parts =
     (if matches kw parts = [] then None
      else token_value rnd parts (last (matches kw parts) + 1))"

text \<open>
  Decimal numerals, for the statement about well-formed lines: one digit at least,
  optionally followed by a point and one digit at least, with an optional sign in front.
  The value of a numeral is the rational number it writes.
\<close>

definition unsigned_numeral :: "string \<Rightarrow> bool" where
  "unsigned_numeral u =
     (let ip = takeWhile is_digit u; r = dropWhile is_digit u
      in ip \<noteq> [] \<and>
         (if r = [] then True
          else hd r = CHR ''.'' \<and> tl r \<noteq> [] \<and> list_all is_digit (tl r)))"

definition unsigned_value :: "string \<Rightarrow> rat" where
  "unsigned_value u =
     of_int (dec (takeWhile is_digit u))
     + of_int (dec (tl (dropWhile is_digit u))) / 10 ^ length (tl (dropWhile is_digit u))"

definition decimal_numeral :: "string \<Rightarrow> bool" where
  "decimal_numeral s = unsigned_numeral (snd (take_sign s))"

definition numeral_value :: "string \<Rightarrow> rat" where
  "numeral_value s =
     (if fst (take_sign s) then - unsigned_value (snd (take_sign s))
      else unsigned_value (snd (take_sign s)))"

text \<open>What the statement about well-formed lines needs of the rounding to binary64: it is
  monotone, and it is exact at 0 and at 14.\<close>

definition rounding :: "(rat \<Rightarrow> fl) \<Rightarrow> bool" where
  "rounding rnd =
     ((\<forall>x y. x \<le> y \<longrightarrow> fle (rnd x) (rnd y)) \<and> rnd 0 = Fin 0 \<and> rnd 14 = Fin 14)"

text \<open>The characters of a decimal numeral.\<close>

definition numeral_char :: "char \<Rightarrow> bool" where
  "numeral_char c = (is_digit c \<or> c = CHR ''.'' \<or> c = CHR ''+'' \<or> c = CHR ''-'')"

section \<open>Properties\<close>

subsection \<open>The polling loop\<close>

lemma iteration_raises:
  "fst (iteration rnd c (Poll_raises e)) = (c + 1, Continue)"
  by (simp add: iteration_def loop_try_def)

text \<open>
  C3. The claim: once the counter has reached the ceiling of 10 the loop exits, whatever
  drove the counter there, and never keeps running with the counter at or above the
  ceiling. The code tests the counter at the end of the \<^verbatim>\<open>try\<close> block only; the handler of
  a fault adds one to the counter and goes on to the next iteration without the test. When
  every iteration raises (the device has been unplugged and \<^verbatim>\<open>in_waiting\<close> raises each
  time), the loop is still running after any number \<open>n\<close> of iterations, with the counter at
  \<open>c + n\<close>: above 10 from the eleventh iteration on.
\<close>

theorem main_loop_faults_never_stop:
  "main_loop rnd c (replicate n (Poll_raises e)) = Running (c + int n)"
proof (induction n arbitrary: c)
  case 0
  show ?case by simp
next
  case (Suc n)
  have "main_loop rnd c (replicate (Suc n) (Poll_raises e)) =
        main_loop rnd (c + 1) (replicate n (Poll_raises e))"
    by (simp add: iteration_raises)
  also have "\<dots> = Running (c + 1 + int n)"
    by (rule Suc.IH)
  finally show ?case by (simp add: add.assoc add.commute)
qed

text \<open>
  C9. The counter after one iteration: unchanged when nothing is waiting on the port or
  the line is empty after stripping, unchanged when the parser rejects the line, zero after
  a delivery that succeeds (whatever the counter was), and one more after a delivery that
  fails.
\<close>

theorem counter_evolution:
  "counter_after rnd c No_input = c
   \<and> (strip raw = [] \<longrightarrow> counter_after rnd c (Input raw post) = c)
   \<and> (strip raw \<noteq> [] \<and> fst (parse_sensor_line rnd (strip raw)) = Inr None
        \<longrightarrow> counter_after rnd c (Input raw post) = c)
   \<and> (strip raw \<noteq> [] \<and> fst (parse_sensor_line rnd (strip raw)) = Inr (Some data)
        \<and> fst (send_sensor_data post data MAX_RETRIES) = Inr True
        \<longrightarrow> counter_after rnd c (Input raw post) = 0)
   \<and> (strip raw \<noteq> [] \<and> fst (parse_sensor_line rnd (strip raw)) = Inr (Some data)
        \<and> fst (send_sensor_data post data MAX_RETRIES) = Inr False
        \<longrightarrow> counter_after rnd c (Input raw post) = c + 1)"
proof -
  have idle: "counter_after rnd c No_input = c"
    by (simp add: counter_after_def iteration_def loop_try_def check_errors_def)
  have empty: "counter_after rnd c (Input raw post) = c" if "strip raw = []"
    using that by (simp add: counter_after_def iteration_def loop_try_def)
  have rejected: "counter_after rnd c (Input raw post) = c"
    if ne: "strip raw \<noteq> []" and rej: "fst (parse_sensor_line rnd (strip raw)) = Inr None"
  proof -
    obtain es where "parse_sensor_line rnd (strip raw) = (Inr None, es)"
      using rej by (cases "parse_sensor_line rnd (strip raw)") simp
    with ne show ?thesis
      by (simp add: counter_after_def iteration_def loop_try_def check_errors_def Let_def)
  qed
  have delivered: "counter_after rnd c (Input raw post) = (if b then 0 else c + 1)"
    if ne: "strip raw \<noteq> []"
       and acc: "fst (parse_sensor_line rnd (strip raw)) = Inr (Some data)"
       and sent: "fst (send_sensor_data post data MAX_RETRIES) = Inr b" for b
  proof -
    obtain es where p: "parse_sensor_line rnd (strip raw) = (Inr (Some data), es)"
      using acc by (cases "parse_sensor_line rnd (strip raw)") simp
    obtain es' where s: "send_sensor_data post data MAX_RETRIES = (Inr b, es')"
      using sent by (cases "send_sensor_data post data MAX_RETRIES") simp
    from ne p s show ?thesis
      by (cases b)
        (simp_all add: counter_after_def iteration_def loop_try_def check_errors_def Let_def)
  qed
  from idle empty rejected delivered [of True] delivered [of False] show ?thesis
    by simp
qed

theorem counter_evolution_witness:
  "counter_after Fin 4 No_input = 4
   \<and> strip ''  '' = [] \<and> counter_after Fin 4 (Input ''  '' (\<lambda>i. Inr 500)) = 4
   \<and> strip ''noise'' \<noteq> [] \<and> fst (parse_sensor_line Fin (strip ''noise'')) = Inr None
     \<and> counter_after Fin 4 (Input ''noise'' (\<lambda>i. Inr 500)) = 4
   \<and> strip ''pH: 7.2 TDS: 145 Turbidity: 2.3'' \<noteq> []
     \<and> fst (parse_sensor_line Fin (strip ''pH: 7.2 TDS: 145 Turbidity: 2.3''))
         = Inr (Some \<lparr>ph = Fin (36 / 5), tds = Fin 145, turbidity = Fin (23 / 10)\<rparr>)
     \<and> fst (send_sensor_data (\<lambda>i. Inr 200)
              \<lparr>ph = Fin (36 / 5), tds = Fin 145, turbidity = Fin (23 / 10)\<rparr> MAX_RETRIES) = Inr True
     \<and> counter_after Fin 4 (Input ''pH: 7.2 TDS: 145 Turbidity: 2.3'' (\<lambda>i. Inr 200)) = 0
     \<and> fst (send_sensor_data (\<lambda>i. Inr 500)
              \<lparr>ph = Fin (36 / 5), tds = Fin 145, turbidity = Fin (23 / 10)\<rparr> MAX_RETRIES) = Inr False
     \<and> counter_after Fin 4 (Input ''pH: 7.2 TDS: 145 Turbidity: 2.3'' (\<lambda>i. Inr 500)) = 5"
proof -
  let ?d = "\<lparr>ph = Fin (36 / 5), tds = Fin 145, turbidity = Fin (23 / 10)\<rparr>"
  have e: "strip ''  '' = []" by code_simp
  have n: "strip ''noise'' \<noteq> []" by code_simp
  have r: "fst (parse_sensor_line Fin (strip ''noise'')) = Inr None" by code_simp
  have l: "strip ''pH: 7.2 TDS: 145 Turbidity: 2.3'' \<noteq> []" by code_simp
  have a: "fst (parse_sensor_line Fin (strip ''pH: 7.2 TDS: 145 Turbidity: 2.3'')) = Inr (Some ?d)"
    by code_simp
  have ok: "fst (send_sensor_data (\<lambda>i. Inr 200) ?d MAX_RETRIES) = Inr True" by code_simp
  have ko: "fst (send_sensor_data (\<lambda>i. Inr 500) ?d MAX_RETRIES) = Inr False" by code_simp
  show ?thesis
    using e n r l a ok ko
      counter_evolution [of Fin 4 "''  ''" "\<lambda>i. Inr 500" ?d]
      counter_evolution [of Fin 4 "''noise''" "\<lambda>i. Inr 500" ?d]
      counter_evolution [of Fin 4 "''pH: 7.2 TDS: 145 Turbidity: 2.3''" "\<lambda>i. Inr 200" ?d]
      counter_evolution [of Fin 4 "''pH: 7.2 TDS: 145 Turbidity: 2.3''" "\<lambda>i. Inr 500" ?d]
    by simp
qed

subsection \<open>Delivery\<close>

lemma send_loop_all_fail:
  "list_all (\<lambda>i. failed_attempt (post i)) xs \<Longrightarrow>
     fst (send_loop post data retries xs) = Inr False
     \<and> attempts_made (snd (send_loop post data retries xs)) = length xs"
  by (induction xs)
     (auto simp: failed_attempt_def attempts_made_def split: sum.splits prod.splits)

lemma send_loop_returns:
  "list_all (\<lambda>i. response_or_fault (post i)) xs \<Longrightarrow>
     \<exists>b. fst (send_loop post data retries xs) = Inr b"
  by (induction xs)
     (auto simp: response_or_fault_def split: sum.splits prod.splits)

text \<open>
  C7. When every attempt fails, \<^verbatim>\<open>send_sensor_data\<close> makes as many requests as
  \<^verbatim>\<open>range(retries)\<close> has elements (\<open>retries\<close> of them for \<open>retries \<ge> 0\<close>, 3 by default)
  and returns \<^verbatim>\<open>False\<close>. When each attempt ends in a response or in a network-level fault,
  the function returns a boolean: no exception reaches the caller.
\<close>

theorem send_sensor_data_exhausts:
  "MAX_RETRIES = 3
   \<and> ((\<forall>i. i < nat retries \<longrightarrow> failed_attempt (post i)) \<longrightarrow>
        fst (send_sensor_data post data retries) = Inr False
        \<and> attempts_made (snd (send_sensor_data post data retries)) = nat retries)
   \<and> ((\<forall>i. response_or_fault (post i)) \<longrightarrow>
        (\<exists>b. fst (send_sensor_data post data retries) = Inr b))"
proof -
  have "fst (send_sensor_data post data retries) = Inr False
        \<and> attempts_made (snd (send_sensor_data post data retries)) = nat retries"
    if "\<forall>i. i < nat retries \<longrightarrow> failed_attempt (post i)"
  proof -
    from that have "list_all (\<lambda>i. failed_attempt (post i)) [0..<nat retries]"
      by (simp add: list_all_iff)
    from send_loop_all_fail [OF this, of data retries] show ?thesis
      by (simp add: send_sensor_data_def)
  qed
  moreover have "\<exists>b. fst (send_sensor_data post data retries) = Inr b"
    if "\<forall>i. response_or_fault (post i)"
  proof -
    from that have "list_all (\<lambda>i. response_or_fault (post i)) [0..<nat retries]"
      by (simp add: list_all_iff)
    from send_loop_returns [OF this, of data retries] show ?thesis
      by (simp add: send_sensor_data_def)
  qed
  ultimately show ?thesis
    by (simp add: MAX_RETRIES_def)
qed

theorem send_sensor_data_exhausts_witness:
  "failed_attempt (Inl RequestException)
   \<and> response_or_fault (Inl RequestException)
   \<and> fst (send_sensor_data (\<lambda>i. Inl RequestException)
            \<lparr>ph = Fin 7, tds = Fin 145, turbidity = Fin 2\<rparr> 3) = Inr False
   \<and> attempts_made (snd (send_sensor_data (\<lambda>i. Inl RequestException)
            \<lparr>ph = Fin 7, tds = Fin 145, turbidity = Fin 2\<rparr> 3)) = 3"
proof -
  have f: "failed_attempt (Inl RequestException)"
    by (simp add: failed_attempt_def)
  have r: "response_or_fault (Inl RequestException)"
    by (simp add: response_or_fault_def)
  from f r send_sensor_data_exhausts
      [of 3 "\<lambda>i. Inl RequestException" "\<lparr>ph = Fin 7, tds = Fin 145, turbidity = Fin 2\<rparr>"]
  show ?thesis by (simp add: MAX_RETRIES_def)
qed

text \<open>
  C4. The claim: between two consecutive failed attempts the client waits 2 time units,
  whether the attempt failed by its status or by a network-level fault. The pause of
  line 131 is inside the handler of \<^verbatim>\<open>RequestException\<close> only. With a collector that
  answers 500 each time, the three requests follow each other with no pause at all; with
  a collector that cannot be reached, there is a pause after the first and after the
  second attempt.
\<close>

theorem send_sensor_data_status_no_delay:
  "send_sensor_data (\<lambda>attempt. Inr 500) data 3 =
     (Inr False,
      [Post data, Log WARNING (API_returned_status 500),
       Post data, Log WARNING (API_returned_status 500),
       Post data, Log WARNING (API_returned_status 500),
       Log ERROR (Failed_to_send_after 3)])
   \<and> filter is_Sleep (snd (send_sensor_data (\<lambda>attempt. Inr 500) data 3)) = []
   \<and> filter is_Sleep (snd (send_sensor_data (\<lambda>attempt. Inl RequestException) data 3))
       = [Sleep 2, Sleep 2]"
  by (simp add: send_sensor_data_def upt_rec RETRY_DELAY_def)

subsection \<open>The parser: what the loops compute\<close>

lemma py_float_raises: "py_float rnd s = Inl e \<Longrightarrow> e = ValueError"
  by (auto simp: py_float_def Let_def split: if_splits prod.splits option.splits)

lemma try_float_eq:
  "try_float rnd parts j cur = Inr (or_else (token_value rnd parts j) cur)"
proof (cases "j < length parts")
  case False
  then show ?thesis
    by (simp add: try_float_def index_def and_then_def token_value_def or_else_def)
next
  case True
  show ?thesis
  proof (cases "py_float rnd (remove_colons (parts ! j))")
    case (Inl e)
    with True py_float_raises [OF Inl] show ?thesis
      by (simp add: try_float_def index_def and_then_def token_value_def or_else_def)
  next
    case (Inr v)
    with True show ?thesis
      by (simp add: try_float_def index_def and_then_def token_value_def or_else_def)
  qed
qed

lemma hit_pair:
  "hit kw rnd parts (i, part) =
     (if kw (lower part) \<and> i + 1 < length parts then token_value rnd parts (i + 1) else None)"
  by (simp add: hit_def)

lemma scan_loop_eq:
  "scan_loop kw rnd parts ips cur =
     Inr (if List.map_filter (hit kw rnd parts) ips = [] then cur
          else Some (last (List.map_filter (hit kw rnd parts) ips)))"
proof (induction ips arbitrary: cur)
  case Nil
  show ?case by simp
next
  case (Cons ip ips)
  obtain i part where ip: "ip = (i, part)" by (cases ip)
  show ?case
    unfolding ip
    by (simp add: Cons.IH try_float_eq and_then_def hit_pair or_else_def
        split: option.splits)
qed

lemma keyword_scan_eq: "keyword_scan kw rnd parts = Inr (last_hit kw rnd parts)"
  by (simp add: keyword_scan_def scan_loop_eq last_hit_def hits_def)

lemma fallback_eq: "fallback rnd parts j cur = Inr (or_else cur (token_value rnd parts j))"
  by (cases cur)
     (simp_all add: fallback_def try_float_eq or_else_def token_value_def
        split: option.splits sum.splits)

lemma extract_fields_eq:
  "extract_fields rnd parts =
     Inr (or_else (last_hit ph_keyword rnd parts) (token_value rnd parts 1),
          or_else (last_hit tds_keyword rnd parts) (token_value rnd parts 4),
          or_else (last_hit turbidity_keyword rnd parts) (token_value rnd parts 6))"
  by (simp add: extract_fields_def keyword_scan_eq fallback_eq and_then_def)

lemma map_filter_append:
  "List.map_filter f (xs @ ys) = List.map_filter f xs @ List.map_filter f ys"
  by (simp add: map_filter_def)

lemma map_filter_empty:
  "(\<And>x. x \<in> set xs \<Longrightarrow> f x = None) \<Longrightarrow> List.map_filter f xs = []"
  by (induction xs) simp_all

lemma hits_split:
  assumes "i < length parts"
  shows "hits kw rnd parts =
           List.map_filter (hit kw rnd parts) (enumerate 0 (take i parts))
           @ List.map_filter (hit kw rnd parts) [(i, parts ! i)]
           @ List.map_filter (hit kw rnd parts) (enumerate (Suc i) (drop (Suc i) parts))"
proof -
  have "enumerate 0 parts = enumerate 0 (take i parts @ parts ! i # drop (Suc i) parts)"
    using id_take_nth_drop [OF assms] by simp
  also have "\<dots> = enumerate 0 (take i parts) @ (i, parts ! i) # enumerate (Suc i) (drop (Suc i) parts)"
    using assms by (simp add: enumerate_append_eq)
  finally show ?thesis
    by (simp add: hits_def map_filter_append split: option.splits)
qed

lemma scan_value_of_last_match:
  assumes i: "i + 1 < length parts"
    and kw: "kw (lower (parts ! i))"
    and v: "token_value rnd parts (i + 1) = Some v"
    and later: "\<And>j. i < j \<Longrightarrow> j + 1 < length parts \<Longrightarrow> \<not> kw (lower (parts ! j))"
  shows "keyword_scan kw rnd parts = Inr (Some v)"
proof -
  have "hit kw rnd parts x = None" if "x \<in> set (enumerate (Suc i) (drop (Suc i) parts))" for x
  proof -
    obtain j p where x: "x = (j, p)" by (cases x)
    from that have "Suc i \<le> j" and "j < length parts" and "p = parts ! j"
      using i by (auto simp: x in_set_enumerate_eq)
    with later [of j] show ?thesis
      by (auto simp: x hit_pair)
  qed
  then have "List.map_filter (hit kw rnd parts) (enumerate (Suc i) (drop (Suc i) parts)) = []"
    by (rule map_filter_empty)
  moreover have "List.map_filter (hit kw rnd parts) [(i, parts ! i)] = [v]"
    using i kw v by (simp add: hit_pair)
  ultimately have "hits kw rnd parts =
      List.map_filter (hit kw rnd parts) (enumerate 0 (take i parts)) @ [v]"
    using hits_split [of i parts kw rnd] i by simp
  then show ?thesis
    by (simp add: keyword_scan_eq last_hit_def)
qed

lemma last_matches:
  assumes "matches kw parts \<noteq> []"
  shows "last (matches kw parts) < length parts"
    and "kw (lower (parts ! last (matches kw parts)))"
    and "\<And>j. last (matches kw parts) < j \<Longrightarrow> j < length parts \<Longrightarrow> \<not> kw (lower (parts ! j))"
proof -
  let ?m = "matches kw parts"
  have mem: "last ?m \<in> set ?m" using assms by simp
  then show "last ?m < length parts" and "kw (lower (parts ! last ?m))"
    by (simp_all add: matches_def)
  have srt: "sorted ?m" by (simp add: matches_def sorted_wrt_filter)
  show "\<not> kw (lower (parts ! j))" if "last ?m < j" and "j < length parts" for j
  proof
    assume "kw (lower (parts ! j))"
    with that have "j \<in> set ?m" by (simp add: matches_def)
    then obtain k where k: "k < length ?m" "?m ! k = j" by (auto simp: in_set_conv_nth)
    have "?m ! k \<le> ?m ! (length ?m - 1)"
      using srt k(1) by (intro sorted_nth_mono) auto
    also have "\<dots> = last ?m" using assms by (simp add: last_conv_nth)
    finally show False using k(2) that(1) by simp
  qed
qed

text \<open>
  C5. Each keyword scan returns a result without raising, and the value of a field after
  lines 39-88 is the value of its own keyword scan when that scan produced one, and the
  value of the token at the field's fixed index (1 for acidity, 4 for dissolved solids, 6
  for turbidity; colons removed, read as a float) exactly when the scan produced nothing.
  A field depends on its own scan and its own positional token only.
\<close>

theorem fallback_only_when_scan_empty:
  "\<exists>p t u. keyword_scan ph_keyword rnd parts = Inr p
     \<and> keyword_scan tds_keyword rnd parts = Inr t
     \<and> keyword_scan turbidity_keyword rnd parts = Inr u
     \<and> extract_fields rnd parts =
         Inr (or_else p (token_value rnd parts 1),
              or_else t (token_value rnd parts 4),
              or_else u (token_value rnd parts 6))"
  by (simp add: keyword_scan_eq extract_fields_eq)

text \<open>
  C6, as stated: when the keyword matches several tokens, the value extracted is the one
  taken at the last matching token. In the line below the keyword of acidity matches the
  tokens 0 and 2; the token after the last match, \<open>abc\<close>, is not a number, so no value is
  taken there, and the scan keeps the 7 taken at the first match.
\<close>

theorem last_match_does_not_win:
  "matches ph_keyword (py_split ''pH: 7 pH: abc TDS: 1 Turbidity: 2'') = [0, 2]
   \<and> value_at_last_match ph_keyword Fin (py_split ''pH: 7 pH: abc TDS: 1 Turbidity: 2'') = None
   \<and> keyword_scan ph_keyword Fin (py_split ''pH: 7 pH: abc TDS: 1 Turbidity: 2'')
       = Inr (Some (Fin 7))"
  by code_simp

text \<open>
  C6, amended. The scan goes through all tokens and overwrites the value at every matching
  token whose next token exists and is a number, so the value extracted is the one taken
  at the last such token (none when there is no such token). In particular, when the token
  after the last matching token is a number, that number is the value extracted.
\<close>

theorem last_converting_match_wins:
  "keyword_scan kw rnd parts =
     Inr (if hits kw rnd parts = [] then None else Some (last (hits kw rnd parts)))
   \<and> (matches kw parts \<noteq> [] \<and> value_at_last_match kw rnd parts = Some v
        \<longrightarrow> keyword_scan kw rnd parts = Inr (Some v))"
proof -
  have "keyword_scan kw rnd parts = Inr (Some v)"
    if m: "matches kw parts \<noteq> []" and val: "value_at_last_match kw rnd parts = Some v"
  proof -
    let ?i = "last (matches kw parts)"
    from m val have tv: "token_value rnd parts (?i + 1) = Some v"
      by (simp add: value_at_last_match_def)
    then have "?i + 1 < length parts"
      by (simp add: token_value_def split: if_splits)
    then show ?thesis
      using last_matches(2,3) [OF m] tv
      by (intro scan_value_of_last_match) auto
  qed
  then show ?thesis
    by (simp add: keyword_scan_eq last_hit_def)
qed

theorem last_converting_match_wins_witness:
  "matches ph_keyword (py_split ''pH: 3 x pH: 7 TDS: 1 Turbidity: 2'') \<noteq> []
   \<and> value_at_last_match ph_keyword Fin (py_split ''pH: 3 x pH: 7 TDS: 1 Turbidity: 2'')
       = Some (Fin 7)
   \<and> keyword_scan ph_keyword Fin (py_split ''pH: 3 x pH: 7 TDS: 1 Turbidity: 2'')
       = Inr (Some (Fin 7))"
proof -
  have m: "matches ph_keyword (py_split ''pH: 3 x pH: 7 TDS: 1 Turbidity: 2'') \<noteq> []"
    by code_simp
  have v: "value_at_last_match ph_keyword Fin (py_split ''pH: 3 x pH: 7 TDS: 1 Turbidity: 2'')
       = Some (Fin 7)"
    by code_simp
  from m v last_converting_match_wins
      [of ph_keyword Fin "py_split ''pH: 3 x pH: 7 TDS: 1 Turbidity: 2''" "Fin 7"]
  show ?thesis by blast
qed

subsection \<open>The parser: totality and validation\<close>

lemma strip_eq_Nil: "strip s = [] \<longleftrightarrow> list_all is_space s"
proof -
  have "strip s = [] \<longleftrightarrow> (\<forall>x \<in> set (dropWhile is_space s). is_space x)"
    by (simp add: strip_def dropWhile_eq_Nil_conv)
  also have "\<dots> \<longleftrightarrow> dropWhile is_space s = []"
  proof
    assume a: "\<forall>x \<in> set (dropWhile is_space s). is_space x"
    show "dropWhile is_space s = []"
    proof (rule ccontr)
      assume n: "dropWhile is_space s \<noteq> []"
      then have "\<not> is_space (hd (dropWhile is_space s))" by (rule hd_dropWhile)
      moreover from n have "hd (dropWhile is_space s) \<in> set (dropWhile is_space s)" by simp
      ultimately show False using a by blast
    qed
  qed (auto dest: set_dropWhileD)
  also have "\<dots> \<longleftrightarrow> list_all is_space s"
    by (simp add: dropWhile_eq_Nil_conv list_all_iff)
  finally show ?thesis .
qed

lemma split_from_blank: "list_all is_space s \<Longrightarrow> split_from [] s = []"
  by (induction s) simp_all

lemma extract_fields_Nil: "extract_fields rnd [] = Inr (None, None, None)"
  by (simp add: extract_fields_eq last_hit_def hits_def token_value_def or_else_def)

lemma extract_fields_not_blank:
  assumes "extract_fields rnd (py_split line) = Inr (Some a, b, c)"
  shows "line \<noteq> []" and "strip line \<noteq> []"
proof -
  have "\<not> list_all is_space line"
  proof
    assume "list_all is_space line"
    then have "py_split line = []" by (simp add: py_split_def split_from_blank)
    with assms show False by (simp add: extract_fields_Nil)
  qed
  then show "line \<noteq> []" and "strip line \<noteq> []"
    by (auto simp: strip_eq_Nil)
qed

lemma flt_not_fle: "flt a b \<Longrightarrow> \<not> fle b a"
  by (cases a; cases b) simp_all


text \<open>
  C8. \<^verbatim>\<open>parse_sensor_line\<close> returns for every string: a reading or the rejection, never an
  exception. The extraction of lines 39-88 itself never raises, so the outer handler is
  not even reached. An empty string and a string of whitespace are rejected without any
  diagnostic. A conversion that fails (the token is missing or \<^verbatim>\<open>float\<close> raises ValueError)
  leaves the variable of its field as it was and lets the function go on.
\<close>

theorem parse_sensor_line_total:
  "(\<exists>r es. parse_sensor_line rnd line = (Inr r, es))
   \<and> (\<exists>f. extract_fields rnd (py_split line) = Inr f)
   \<and> (list_all is_space line \<longrightarrow> parse_sensor_line rnd line = (Inr None, []))
   \<and> (py_float rnd (remove_colons (parts ! j)) = Inl e \<longrightarrow> try_float rnd parts j cur = Inr cur)"
proof -
  have total: "\<exists>r es. parse_sensor_line rnd line = (Inr r, es)"
    by (simp add: parse_sensor_line_def try_body_def extract_fields_eq split: prod.splits)
  have fields: "\<exists>f. extract_fields rnd (py_split line) = Inr f"
    by (simp add: extract_fields_eq)
  have blank: "parse_sensor_line rnd line = (Inr None, [])" if "list_all is_space line"
    using that by (simp add: parse_sensor_line_def strip_eq_Nil)
  have absorbed: "try_float rnd parts j cur = Inr cur"
    if "py_float rnd (remove_colons (parts ! j)) = Inl e"
    using that by (simp add: try_float_eq token_value_def or_else_def)
  from total fields blank absorbed show ?thesis by blast
qed

theorem parse_sensor_line_total_witness:
  "list_all is_space ''   ''
   \<and> parse_sensor_line Fin ''   '' = (Inr None, [])
   \<and> parse_sensor_line Fin [] = (Inr None, [])
   \<and> py_float Fin (remove_colons ([''pH:'', ''abc''] ! 1)) = Inl ValueError
   \<and> try_float Fin [''pH:'', ''abc''] 1 (Some (Fin 7)) = Inr (Some (Fin 7))"
proof -
  have b: "list_all is_space ''   ''" by code_simp
  have n: "list_all is_space []" by simp
  have f: "py_float Fin (remove_colons ([''pH:'', ''abc''] ! 1)) = Inl ValueError" by code_simp
  from b n f
    parse_sensor_line_total [of Fin "''   ''" "[''pH:'', ''abc'']" 1 ValueError "Some (Fin 7)"]
    parse_sensor_line_total [of Fin "[]" "[''pH:'', ''abc'']" 1 ValueError "Some (Fin 7)"]
  show ?thesis by blast
qed


text \<open>
  C2. For a line whose three fields resolve to the values \<open>a\<close>, \<open>b\<close>, \<open>c\<close>: when the
  acidity \<open>a\<close> is below 0 or above 14 the line is rejected (more precisely, whenever
  \<^verbatim>\<open>0 <= a <= 14\<close> is false, with one warning); when \<open>a\<close> is within the bounds the reading
  \<open>(a, b, c)\<close> is returned whatever \<open>b\<close> and \<open>c\<close> are, with one warning for \<open>b\<close> when
  it is below 0 or above 10000 and one for \<open>c\<close> when it is below 0 or above 100. (For NaN
  every comparison is false: a NaN acidity is rejected, a NaN in a soft field passes
  without a warning.)
\<close>

theorem validation_asymmetry:
  assumes "extract_fields rnd (py_split line) = Inr (Some a, Some b, Some c)"
  shows "(flt a (Fin 0) \<or> flt (Fin 14) a \<longrightarrow> fst (parse_sensor_line rnd line) = Inr None)
     \<and> (\<not> (fle (Fin 0) a \<and> fle a (Fin 14)) \<longrightarrow>
          parse_sensor_line rnd line = (Inr None, [Log WARNING (Invalid_pH_value a)]))
     \<and> (fle (Fin 0) a \<and> fle a (Fin 14) \<longrightarrow>
          parse_sensor_line rnd line =
            (Inr (Some \<lparr>ph = a, tds = b, turbidity = c\<rparr>),
             (if flt b (Fin 0) \<or> flt (Fin 10000) b
              then [Log WARNING (TDS_out_of_range b)] else []) @
             (if flt c (Fin 0) \<or> flt (Fin 100) c
              then [Log WARNING (Turbidity_out_of_range c)] else [])))"
proof -
  note nb = extract_fields_not_blank [OF assms]
  have rej: "parse_sensor_line rnd line = (Inr None, [Log WARNING (Invalid_pH_value a)])"
    if "\<not> (fle (Fin 0) a \<and> fle a (Fin 14))"
    using that nb assms by (simp add: parse_sensor_line_def try_body_def validate_def)
  have acc: "parse_sensor_line rnd line =
            (Inr (Some \<lparr>ph = a, tds = b, turbidity = c\<rparr>),
             (if flt b (Fin 0) \<or> flt (Fin 10000) b
              then [Log WARNING (TDS_out_of_range b)] else []) @
             (if flt c (Fin 0) \<or> flt (Fin 100) c
              then [Log WARNING (Turbidity_out_of_range c)] else []))"
    if "fle (Fin 0) a \<and> fle a (Fin 14)"
    using that nb assms by (simp add: parse_sensor_line_def try_body_def validate_def)
  have out: "fst (parse_sensor_line rnd line) = Inr None" if "flt a (Fin 0) \<or> flt (Fin 14) a"
  proof -
    from that have "\<not> (fle (Fin 0) a \<and> fle a (Fin 14))"
      using flt_not_fle by blast
    from rej [OF this] show ?thesis by simp
  qed
  from rej acc out show ?thesis by blast
qed



theorem validation_asymmetry_witness:
  "extract_fields Fin (py_split ''pH: 7 TDS: 20000 Turbidity: 200'')
     = Inr (Some (Fin 7), Some (Fin 20000), Some (Fin 200))
   \<and> fle (Fin 0) (Fin 7) \<and> fle (Fin 7) (Fin 14)
   \<and> parse_sensor_line Fin ''pH: 7 TDS: 20000 Turbidity: 200''
     = (Inr (Some \<lparr>ph = Fin 7, tds = Fin 20000, turbidity = Fin 200\<rparr>),
        [Log WARNING (TDS_out_of_range (Fin 20000)),
         Log WARNING (Turbidity_out_of_range (Fin 200))])
   \<and> extract_fields Fin (py_split ''pH: 15 TDS: 10 Turbidity: 1'')
     = Inr (Some (Fin 15), Some (Fin 10), Some (Fin 1))
   \<and> flt (Fin 14) (Fin 15)
   \<and> parse_sensor_line Fin ''pH: 15 TDS: 10 Turbidity: 1''
     = (Inr None, [Log WARNING (Invalid_pH_value (Fin 15))])"
proof -
  have e1: "extract_fields Fin (py_split ''pH: 7 TDS: 20000 Turbidity: 200'')
     = Inr (Some (Fin 7), Some (Fin 20000), Some (Fin 200))"
    by code_simp
  have e2: "extract_fields Fin (py_split ''pH: 15 TDS: 10 Turbidity: 1'')
     = Inr (Some (Fin 15), Some (Fin 10), Some (Fin 1))"
    by code_simp
  have r1: "fle (Fin 0) (Fin 7) \<and> fle (Fin 7) (Fin 14)"
    by simp
  have r2: "\<not> (fle (Fin 0) (Fin 15) \<and> fle (Fin 15) (Fin 14))" and o2: "flt (Fin 14) (Fin 15)"
    by simp_all
  have "parse_sensor_line Fin ''pH: 7 TDS: 20000 Turbidity: 200'' =
      (Inr (Some \<lparr>ph = Fin 7, tds = Fin 20000, turbidity = Fin 200\<rparr>),
       (if flt (Fin 20000) (Fin 0) \<or> flt (Fin 10000) (Fin 20000)
        then [Log WARNING (TDS_out_of_range (Fin 20000))] else []) @
       (if flt (Fin 200) (Fin 0) \<or> flt (Fin 100) (Fin 200)
        then [Log WARNING (Turbidity_out_of_range (Fin 200))] else []))"
    using validation_asymmetry [OF e1] r1 by blast
  then have p1: "parse_sensor_line Fin ''pH: 7 TDS: 20000 Turbidity: 200''
     = (Inr (Some \<lparr>ph = Fin 7, tds = Fin 20000, turbidity = Fin 200\<rparr>),
        [Log WARNING (TDS_out_of_range (Fin 20000)),
         Log WARNING (Turbidity_out_of_range (Fin 200))])"
    by simp
  have p2: "parse_sensor_line Fin ''pH: 15 TDS: 10 Turbidity: 1''
     = (Inr None, [Log WARNING (Invalid_pH_value (Fin 15))])"
    using validation_asymmetry [OF e2] r2 by blast
  from e1 e2 r1 o2 p1 p2 show ?thesis by blast
qed

subsection \<open>The parser: keywords\<close>

lemma starts_with_prefix: "starts_with (a @ b) s \<Longrightarrow> starts_with a s"
  by (induction a s rule: starts_with.induct) simp_all

lemma contains_prefix: "contains (a @ b) s \<Longrightarrow> contains a s"
  by (induction s) (auto dest: starts_with_prefix)

lemma turbidity_keyword_iff: "turbidity_keyword p \<longleftrightarrow> contains ''turb'' p"
  using contains_prefix [of "''turb''" "''idity''" p]
  by (auto simp: turbidity_keyword_def)

lemma hit_in_hits:
  assumes "i + 1 < length parts" and "kw (lower (parts ! i))"
    and "token_value rnd parts (i + 1) = Some v"
  shows "v \<in> set (hits kw rnd parts)"
proof -
  have "List.map_filter (hit kw rnd parts) [(i, parts ! i)] = [v]"
    using assms by (simp add: hit_pair)
  with hits_split [of i parts kw rnd] assms(1) show ?thesis
    by simp
qed

lemma scan_value_if_none_later:
  assumes "i + 1 < length parts" and "kw (lower (parts ! i))"
    and "token_value rnd parts (i + 1) = Some v"
    and "list_all (\<lambda>j. \<not> kw (lower (parts ! j))) [Suc i..<length parts - 1]"
  shows "keyword_scan kw rnd parts = Inr (Some v)"
proof (rule scan_value_of_last_match [of i parts kw rnd v, OF assms(1-3)])
  fix j
  assume "i < j" and "j + 1 < length parts"
  then have "j \<in> set [Suc i..<length parts - 1]" by simp
  with assms(4) show "\<not> kw (lower (parts ! j))"
    by (simp add: list_all_iff)
qed

text \<open>
  C10. The keyword test is containment, not equality. Let token \<open>i\<close> have a next token
  whose value is \<open>v\<close>. If the lower-cased token \<open>i\<close> contains \<open>ph\<close> anywhere (as
  \<open>graph\<close> or \<open>phosphate\<close> do), the acidity scan takes \<open>v\<close> at this token; \<open>v\<close> is the
  result of the scan when no later token, the last one apart, contains \<open>ph\<close>. The same
  holds for \<open>tds\<close> and dissolved solids and for \<open>turb\<close> and turbidity.
\<close>

theorem keyword_matches_by_containment:
  assumes "i + 1 < length parts" and "token_value rnd parts (i + 1) = Some v"
  shows
    "(contains ''ph'' (lower (parts ! i)) \<longrightarrow>
        v \<in> set (hits ph_keyword rnd parts)
        \<and> (list_all (\<lambda>j. \<not> contains ''ph'' (lower (parts ! j))) [Suc i..<length parts - 1]
             \<longrightarrow> keyword_scan ph_keyword rnd parts = Inr (Some v)))
     \<and> (contains ''tds'' (lower (parts ! i)) \<longrightarrow>
        v \<in> set (hits tds_keyword rnd parts)
        \<and> (list_all (\<lambda>j. \<not> contains ''tds'' (lower (parts ! j))) [Suc i..<length parts - 1]
             \<longrightarrow> keyword_scan tds_keyword rnd parts = Inr (Some v)))
     \<and> (contains ''turb'' (lower (parts ! i)) \<longrightarrow>
        v \<in> set (hits turbidity_keyword rnd parts)
        \<and> (list_all (\<lambda>j. \<not> contains ''turb'' (lower (parts ! j))) [Suc i..<length parts - 1]
             \<longrightarrow> keyword_scan turbidity_keyword rnd parts = Inr (Some v)))"
proof -
  have ph: "ph_keyword = contains ''ph''" and td: "tds_keyword = contains ''tds''"
    and tu: "turbidity_keyword = contains ''turb''"
    by (auto simp: ph_keyword_def tds_keyword_def turbidity_keyword_iff)
  have g: "v \<in> set (hits kw rnd parts)
        \<and> (list_all (\<lambda>j. \<not> kw (lower (parts ! j))) [Suc i..<length parts - 1]
             \<longrightarrow> keyword_scan kw rnd parts = Inr (Some v))"
    if "kw (lower (parts ! i))" for kw
    using that assms hit_in_hits [of i parts kw rnd v]
      scan_value_if_none_later [of i parts kw rnd v]
    by blast
  show ?thesis
    unfolding ph td tu
    using g [of "contains ''ph''"] g [of "contains ''tds''"] g [of "contains ''turb''"]
    by blast
qed

theorem keyword_matches_by_containment_witness:
  "py_split ''graph 6.5 xtdsx 99 disturbed 1.1'' = [''graph'', ''6.5'', ''xtdsx'', ''99'', ''disturbed'', ''1.1'']
   \<and> contains ''ph'' (lower ([''graph'', ''6.5'', ''xtdsx'', ''99'', ''disturbed'', ''1.1''] ! 0))
   \<and> list_all (\<lambda>j. \<not> contains ''ph'' (lower ([''graph'', ''6.5'', ''xtdsx'', ''99'', ''disturbed'', ''1.1''] ! j))) [Suc 0..<length [''graph'', ''6.5'', ''xtdsx'', ''99'', ''disturbed'', ''1.1''] - 1]
   \<and> keyword_scan ph_keyword Fin [''graph'', ''6.5'', ''xtdsx'', ''99'', ''disturbed'', ''1.1''] = Inr (Some (Fin (13 / 2)))
   \<and> contains ''tds'' (lower ([''graph'', ''6.5'', ''xtdsx'', ''99'', ''disturbed'', ''1.1''] ! 2))
   \<and> list_all (\<lambda>j. \<not> contains ''tds'' (lower ([''graph'', ''6.5'', ''xtdsx'', ''99'', ''disturbed'', ''1.1''] ! j))) [Suc 2..<length [''graph'', ''6.5'', ''xtdsx'', ''99'', ''disturbed'', ''1.1''] - 1]
   \<and> keyword_scan tds_keyword Fin [''graph'', ''6.5'', ''xtdsx'', ''99'', ''disturbed'', ''1.1''] = Inr (Some (Fin 99))
   \<and> contains ''turb'' (lower ([''graph'', ''6.5'', ''xtdsx'', ''99'', ''disturbed'', ''1.1''] ! 4))
   \<and> list_all (\<lambda>j. \<not> contains ''turb'' (lower ([''graph'', ''6.5'', ''xtdsx'', ''99'', ''disturbed'', ''1.1''] ! j))) [Suc 4..<length [''graph'', ''6.5'', ''xtdsx'', ''99'', ''disturbed'', ''1.1''] - 1]
   \<and> keyword_scan turbidity_keyword Fin [''graph'', ''6.5'', ''xtdsx'', ''99'', ''disturbed'', ''1.1''] = Inr (Some (Fin (11 / 10)))"
proof -
  let ?parts = "[''graph'', ''6.5'', ''xtdsx'', ''99'', ''disturbed'', ''1.1'']"
  have sp: "py_split ''graph 6.5 xtdsx 99 disturbed 1.1'' = ?parts"
    by code_simp
  have l0: "0 + 1 < length ?parts" and l2: "2 + 1 < length ?parts" and l4: "4 + 1 < length ?parts"
    by simp_all
  have v0: "token_value Fin ?parts (0 + 1) = Some (Fin (13 / 2))"
    and v2: "token_value Fin ?parts (2 + 1) = Some (Fin 99)"
    and v4: "token_value Fin ?parts (4 + 1) = Some (Fin (11 / 10))"
    by code_simp+
  have c0: "contains ''ph'' (lower (?parts ! 0))"
    and c2: "contains ''tds'' (lower (?parts ! 2))"
    and c4: "contains ''turb'' (lower (?parts ! 4))"
    by code_simp+
  have n0: "list_all (\<lambda>j. \<not> contains ''ph'' (lower (?parts ! j))) [Suc 0..<length ?parts - 1]"
    and n2: "list_all (\<lambda>j. \<not> contains ''tds'' (lower (?parts ! j))) [Suc 2..<length ?parts - 1]"
    and n4: "list_all (\<lambda>j. \<not> contains ''turb'' (lower (?parts ! j))) [Suc 4..<length ?parts - 1]"
    by code_simp+
  from sp c0 c2 c4 n0 n2 n4
    keyword_matches_by_containment [OF l0 v0]
    keyword_matches_by_containment [OF l2 v2]
    keyword_matches_by_containment [OF l4 v4]
  show ?thesis by blast
qed

subsection \<open>The parser: well-formed lines\<close>

lemma numeral_char_facts:
  assumes "numeral_char c"
  shows "\<not> is_space c" and "c \<noteq> CHR '':''" and "c \<noteq> CHR ''_''" and "lower_char c = c"
    and "c \<noteq> CHR ''p''" and "c \<noteq> CHR ''t''"
  using assms by (auto simp: numeral_char_def is_digit_def is_space_def lower_char_def)

lemma unsigned_numeral_parts:
  assumes "unsigned_numeral u"
  shows "takeWhile is_digit u \<noteq> []"
    and "dropWhile is_digit u = [] \<or>
         (dropWhile is_digit u = CHR ''.'' # tl (dropWhile is_digit u)
          \<and> tl (dropWhile is_digit u) \<noteq> [] \<and> list_all is_digit (tl (dropWhile is_digit u)))"
proof -
  from assms show "takeWhile is_digit u \<noteq> []"
    by (simp add: unsigned_numeral_def Let_def)
  show "dropWhile is_digit u = [] \<or>
         (dropWhile is_digit u = CHR ''.'' # tl (dropWhile is_digit u)
          \<and> tl (dropWhile is_digit u) \<noteq> [] \<and> list_all is_digit (tl (dropWhile is_digit u)))"
  proof (cases "dropWhile is_digit u")
    case Nil
    then show ?thesis by simp
  next
    case (Cons a r)
    with assms show ?thesis
      by (simp add: unsigned_numeral_def Let_def)
  qed
qed


lemma unsigned_numeral_chars:
  assumes "unsigned_numeral u"
  shows "u \<noteq> []" and "list_all numeral_char u" and "is_digit (hd u)"
proof -
  let ?ip = "takeWhile is_digit u" and ?r = "dropWhile is_digit u"
  note p = unsigned_numeral_parts [OF assms]
  have u: "u = ?ip @ ?r" by simp
  from p(1) show "u \<noteq> []" by auto
  from p(1) have "hd u = hd ?ip" by (cases u) (auto split: if_splits)
  moreover from p(1) have "hd ?ip \<in> set ?ip" by simp
  ultimately show "is_digit (hd u)" by (auto dest: set_takeWhileD)
  have i: "list_all numeral_char ?ip"
    by (auto simp: list_all_iff numeral_char_def dest: set_takeWhileD)
  have r: "list_all numeral_char ?r"
  proof -
    from p(2) show ?thesis
    proof
      assume e: "?r = []"
      show ?thesis by (simp add: e)
    next
      assume a: "?r = CHR ''.'' # tl ?r \<and> tl ?r \<noteq> [] \<and> list_all is_digit (tl ?r)"
      then have "list_all numeral_char (tl ?r)"
        by (auto simp: list_all_iff numeral_char_def)
      then have "list_all numeral_char (CHR ''.'' # tl ?r)"
        by (simp add: numeral_char_def)
      with a show ?thesis by simp
    qed
  qed
  from i r show "list_all numeral_char u"
    by (metis list_all_append takeWhile_dropWhile_id)
qed

lemma float_number_unsigned:
  assumes "unsigned_numeral u"
  shows "float_number u = Some (unsigned_value u)"
proof -
  let ?ip = "takeWhile is_digit u" and ?r = "dropWhile is_digit u"
  note p = unsigned_numeral_parts [OF assms]
  from p(2) show ?thesis
  proof
    assume e: "?r = []"
    from p(1) show ?thesis
      by (simp add: float_number_def unsigned_value_def Let_def e dec_def)
  next
    assume a: "?r = CHR ''.'' # tl ?r \<and> tl ?r \<noteq> [] \<and> list_all is_digit (tl ?r)"
    then have t: "takeWhile is_digit (tl ?r) = tl ?r" and d: "dropWhile is_digit (tl ?r) = []"
      by (simp_all add: list_all_iff)
    from a have n: "?r \<noteq> []" and h: "hd ?r = CHR ''.''"
      by (metis list.distinct(1), metis list.sel(1))
    show ?thesis
      by (simp add: float_number_def unsigned_value_def Let_def n h t d p(1)
          del: dropWhile_eq_Nil_conv takeWhile_eq_all_conv)
  qed
qed


lemma dropWhile_none: "\<forall>x\<in>set xs. \<not> P x \<Longrightarrow> dropWhile P xs = xs"
  by (cases xs) auto

lemma strip_id: "\<forall>c\<in>set s. \<not> is_space c \<Longrightarrow> strip s = s"
  by (simp add: strip_def dropWhile_none)

lemma underscores_ok_none:
  "\<forall>c\<in>set s. c \<noteq> CHR ''_'' \<Longrightarrow> prev \<noteq> CHR ''_'' \<Longrightarrow> underscores_ok prev s"
  by (induction s arbitrary: prev) auto

lemma decimal_numeral_chars:
  assumes "decimal_numeral s"
  shows "s \<noteq> []" and "list_all numeral_char s"
proof -
  from assms have u: "unsigned_numeral (snd (take_sign s))"
    by (simp add: decimal_numeral_def)
  note c = unsigned_numeral_chars [OF u]
  from c(1) show "s \<noteq> []"
    by (auto simp: take_sign_def)
  from c(2) show "list_all numeral_char s"
    by (cases s) (auto simp: take_sign_def numeral_char_def split: if_splits)
qed

lemma py_float_decimal:
  assumes "decimal_numeral s"
  shows "py_float rnd s = Inr (rnd (numeral_value s))"
proof -
  from assms have u: "unsigned_numeral (snd (take_sign s))"
    by (simp add: decimal_numeral_def)
  from decimal_numeral_chars(2) [OF assms] have c: "\<forall>c\<in>set s. numeral_char c"
    by (simp add: list_all_iff)
  have st: "strip s = s"
    using c by (intro strip_id) (auto dest: numeral_char_facts(1))
  have us: "underscores_ok (CHR 0x00) s"
    using c by (intro underscores_ok_none) (auto dest: numeral_char_facts(3))
  have fl: "filter (\<lambda>c. c \<noteq> CHR ''_'') s = s"
    using c by (auto simp: filter_id_conv dest: numeral_char_facts(3))
  show ?thesis
    by (simp add: py_float_def st us fl case_prod_beta float_number_unsigned [OF u]
        numeral_value_def)
qed


lemma split_from_word:
  "\<forall>c\<in>set w. \<not> is_space c \<Longrightarrow> split_from cur (w @ s) = split_from (cur @ w) s"
  by (induction w arbitrary: cur) simp_all

lemma split_token:
  assumes "\<forall>c\<in>set w. \<not> is_space c" and "w \<noteq> []"
  shows "split_from [] (w @ CHR '' '' # s) = w # split_from [] s"
    and "split_from [] w = [w]"
proof -
  have sp: "is_space (CHR '' '')" by (simp add: is_space_def)
  from assms(2) sp show "split_from [] (w @ CHR '' '' # s) = w # split_from [] s"
    by (simp add: split_from_word [OF assms(1)])
  from assms(2) show "split_from [] w = [w]"
    using split_from_word [OF assms(1), of "[]" "[]"] by simp
qed

lemma numeral_token:
  assumes "decimal_numeral s"
  shows "\<forall>c\<in>set s. \<not> is_space c" and "remove_colons s = s" and "lower s = s"
    and "\<not> ph_keyword (lower s)" and "\<not> tds_keyword (lower s)"
    and "\<not> turbidity_keyword (lower s)"
proof -
  from decimal_numeral_chars(2) [OF assms] have c: "\<forall>c\<in>set s. numeral_char c"
    by (simp add: list_all_iff)
  from c show "\<forall>c\<in>set s. \<not> is_space c"
    by (auto dest: numeral_char_facts(1))
  from c show "remove_colons s = s"
    by (auto simp: remove_colons_def filter_id_conv dest: numeral_char_facts(2))
  from c show l: "lower s = s"
    by (simp add: lower_def map_idI numeral_char_facts(4))
  have h: "a \<in> set t" if "contains (a # sub) t" for a sub t
    using that by (induction t) auto
  from c have p: "CHR ''p'' \<notin> set s" and t: "CHR ''t'' \<notin> set s"
    by (auto dest: numeral_char_facts(5,6))
  from p show "\<not> ph_keyword (lower s)"
    unfolding l ph_keyword_def using h [of "CHR ''p''" "''h''" s] by auto
  from t show "\<not> tds_keyword (lower s)"
    unfolding l tds_keyword_def using h [of "CHR ''t''" "''ds''" s] by auto
  from t show "\<not> turbidity_keyword (lower s)"
    unfolding l turbidity_keyword_iff using h [of "CHR ''t''" "''urb''" s] by auto
qed

lemma py_split_well_formed:
  assumes "decimal_numeral X" and "decimal_numeral Y" and "decimal_numeral Z"
  shows "py_split (''pH: '' @ X @ '' TDS: '' @ Y @ '' Turbidity: '' @ Z)
           = [''pH:'', X, ''TDS:'', Y, ''Turbidity:'', Z]"
proof -
  have k: "\<forall>c\<in>set ''pH:''. \<not> is_space c" "\<forall>c\<in>set ''TDS:''. \<not> is_space c"
    "\<forall>c\<in>set ''Turbidity:''. \<not> is_space c"
    by (simp_all add: is_space_def)
  note x = numeral_token(1) [OF assms(1)] decimal_numeral_chars(1) [OF assms(1)]
  note y = numeral_token(1) [OF assms(2)] decimal_numeral_chars(1) [OF assms(2)]
  note z = numeral_token(1) [OF assms(3)] decimal_numeral_chars(1) [OF assms(3)]
  have "''pH: '' @ X @ '' TDS: '' @ Y @ '' Turbidity: '' @ Z =
        ''pH:'' @ CHR '' '' # (X @ CHR '' '' # (''TDS:'' @ CHR '' '' #
          (Y @ CHR '' '' # (''Turbidity:'' @ CHR '' '' # Z))))"
    by simp
  then show ?thesis
    unfolding py_split_def
    by (simp only: split_token(1) [OF k(1)] split_token(1) [OF k(2)] split_token(1) [OF k(3)]
        split_token(1) [OF x] split_token(1) [OF y] split_token(2) [OF z] list.simps simp_thms)
qed


lemma keyword_tokens:
  "ph_keyword (lower ''pH:'')" "\<not> ph_keyword (lower ''TDS:'')"
  "\<not> ph_keyword (lower ''Turbidity:'')"
  "tds_keyword (lower ''TDS:'')" "\<not> tds_keyword (lower ''pH:'')"
  "\<not> tds_keyword (lower ''Turbidity:'')"
  "turbidity_keyword (lower ''Turbidity:'')" "\<not> turbidity_keyword (lower ''pH:'')"
  "\<not> turbidity_keyword (lower ''TDS:'')"
  by code_simp+

lemma token_value_decimal:
  assumes "j < length parts" and "decimal_numeral (parts ! j)"
  shows "token_value rnd parts j = Some (rnd (numeral_value (parts ! j)))"
  using assms(1)
  by (simp add: token_value_def numeral_token(2) [OF assms(2)] py_float_decimal [OF assms(2)])

lemma extract_fields_well_formed:
  assumes X: "decimal_numeral X" and Y: "decimal_numeral Y" and Z: "decimal_numeral Z"
  shows "extract_fields rnd [''pH:'', X, ''TDS:'', Y, ''Turbidity:'', Z] =
           Inr (Some (rnd (numeral_value X)), Some (rnd (numeral_value Y)),
                Some (rnd (numeral_value Z)))"
proof -
  let ?parts = "[''pH:'', X, ''TDS:'', Y, ''Turbidity:'', Z]"
  have vx: "token_value rnd ?parts (0 + 1) = Some (rnd (numeral_value X))"
    using token_value_decimal [of 1 ?parts rnd] X by simp
  have vy: "token_value rnd ?parts (2 + 1) = Some (rnd (numeral_value Y))"
    using token_value_decimal [of 3 ?parts rnd] Y by simp
  have vz: "token_value rnd ?parts (4 + 1) = Some (rnd (numeral_value Z))"
    using token_value_decimal [of 5 ?parts rnd] Z by simp
  have u: "[Suc 0..<5] = [1, 2, 3, 4]" "[Suc 2..<5] = [3, 4]" "[Suc 4..<5] = []"
    by (simp_all add: upt_rec)
  have "keyword_scan ph_keyword rnd ?parts = Inr (Some (rnd (numeral_value X)))"
    by (rule scan_value_if_none_later [of 0 ?parts ph_keyword rnd, OF _ _ vx])
      (simp_all add: u keyword_tokens numeral_token(4) [OF X] numeral_token(4) [OF Y])
  then have p: "last_hit ph_keyword rnd ?parts = Some (rnd (numeral_value X))"
    by (simp add: keyword_scan_eq)
  have "keyword_scan tds_keyword rnd ?parts = Inr (Some (rnd (numeral_value Y)))"
    by (rule scan_value_if_none_later [of 2 ?parts tds_keyword rnd, OF _ _ vy])
      (simp_all add: u keyword_tokens numeral_token(5) [OF Y])
  then have t: "last_hit tds_keyword rnd ?parts = Some (rnd (numeral_value Y))"
    by (simp add: keyword_scan_eq)
  have "keyword_scan turbidity_keyword rnd ?parts = Inr (Some (rnd (numeral_value Z)))"
    by (rule scan_value_if_none_later [of 4 ?parts turbidity_keyword rnd, OF _ _ vz])
      (simp_all add: u keyword_tokens)
  then have b: "last_hit turbidity_keyword rnd ?parts = Some (rnd (numeral_value Z))"
    by (simp add: keyword_scan_eq)
  show ?thesis
    by (simp add: extract_fields_eq p t b or_else_def)
qed

lemma parse_accepts:
  assumes "extract_fields rnd (py_split line) = Inr (Some a, Some b, Some c)"
    and "fle (Fin 0) a" and "fle a (Fin 14)"
  shows "fst (parse_sensor_line rnd line) = Inr (Some \<lparr>ph = a, tds = b, turbidity = c\<rparr>)"
  using assms extract_fields_not_blank [OF assms(1)]
  by (simp add: parse_sensor_line_def try_body_def validate_def)

text \<open>
  C1. For decimal numerals \<open>X\<close>, \<open>Y\<close>, \<open>Z\<close> with \<open>X\<close> in [0, 14], the line
  \<^verbatim>\<open>pH: X TDS: Y Turbidity: Z\<close> is never rejected: \<^verbatim>\<open>parse_sensor_line\<close> returns the reading
  whose three fields are the floats of \<open>X\<close>, \<open>Y\<close> and \<open>Z\<close>. No bound on \<open>Y\<close> and \<open>Z\<close> is
  needed for that (they are soft fields), so the statement covers \<open>Y \<ge> 0\<close> and \<open>Z \<ge> 0\<close>.
\<close>

theorem well_formed_line_is_parsed:
  assumes "decimal_numeral X" and "decimal_numeral Y" and "decimal_numeral Z"
    and "rounding rnd"
    and "0 \<le> numeral_value X" and "numeral_value X \<le> 14"
  shows "fst (parse_sensor_line rnd (''pH: '' @ X @ '' TDS: '' @ Y @ '' Turbidity: '' @ Z)) =
           Inr (Some \<lparr>ph = rnd (numeral_value X), tds = rnd (numeral_value Y),
                      turbidity = rnd (numeral_value Z)\<rparr>)"
proof -
  let ?line = "''pH: '' @ X @ '' TDS: '' @ Y @ '' Turbidity: '' @ Z"
  have e: "extract_fields rnd (py_split ?line) =
      Inr (Some (rnd (numeral_value X)), Some (rnd (numeral_value Y)),
           Some (rnd (numeral_value Z)))"
    by (simp only: py_split_well_formed [OF assms(1-3)] extract_fields_well_formed [OF assms(1-3)])
  from assms(4) have m: "\<And>x y. x \<le> y \<Longrightarrow> fle (rnd x) (rnd y)"
    and z: "rnd 0 = Fin 0" and f: "rnd 14 = Fin 14"
    by (simp_all add: rounding_def)
  from m [OF assms(5)] z have lo: "fle (Fin 0) (rnd (numeral_value X))" by simp
  from m [OF assms(6)] f have hi: "fle (rnd (numeral_value X)) (Fin 14)" by simp
  from parse_accepts [OF e lo hi] show ?thesis .
qed

theorem well_formed_line_is_parsed_witness:
  "decimal_numeral ''7.2'' \<and> decimal_numeral ''145'' \<and> decimal_numeral ''2.3''
   \<and> rounding Fin
   \<and> 0 \<le> numeral_value ''7.2'' \<and> numeral_value ''7.2'' \<le> 14
   \<and> fst (parse_sensor_line Fin ''pH: 7.2 TDS: 145 Turbidity: 2.3'') =
       Inr (Some \<lparr>ph = Fin (36 / 5), tds = Fin 145, turbidity = Fin (23 / 10)\<rparr>)"
proof -
  have d: "decimal_numeral ''7.2''" "decimal_numeral ''145''" "decimal_numeral ''2.3''"
    by code_simp+
  have r: "rounding Fin"
    by (simp add: rounding_def)
  have v: "numeral_value ''7.2'' = 36 / 5" "numeral_value ''145'' = 145"
    "numeral_value ''2.3'' = 23 / 10"
    by code_simp+
  have b: "0 \<le> numeral_value ''7.2''" "numeral_value ''7.2'' \<le> 14"
    by (simp_all add: v)
  from well_formed_line_is_parsed [OF d r b] d r b show ?thesis
    by (simp add: v)
qed

end
